theory Spec2Isabelle
  imports Complex_Main "HOL-Library.Log_Nat"
begin

section \<open>The mutex-guarded stores of thread-safety-patterns-masterclass.js\<close>

text \<open>
  The file defines four classes that wrap a piece of state in a mutex:
  \<^verbatim>\<open>ThreadSafeCounter\<close>, \<^verbatim>\<open>ThreadSafeCache\<close>, \<^verbatim>\<open>ThreadSafeInventory\<close> and
  \<^verbatim>\<open>ThreadSafeOperation\<close>. Every method has the same shape:
  \<^verbatim>\<open>
    const release = await this.mutex.acquire();
    try { BODY } finally { release(); }
  \<close>
  An object is a record, a method a function from the object to its result and the
  updated object. A method call that stays suspended for ever in \<^verbatim>\<open>await\<close> has the
  value \<open>None\<close>.

  The methods are generic in the numbers they compute with: they use \<open>0\<close>, \<open>1\<close>,
  \<open>+\<close>, \<open>-\<close> and \<open><\<close> of the number type. The type \<open>double\<close> below gives these the
  meaning they have for JavaScript numbers (IEEE 754 binary64). The exact types
  \<open>int\<close> and \<open>rat\<close> stand for them where the numbers are integers of magnitude at
  most \<open>2 ^ 53\<close>, on which the operations of \<open>double\<close> are exact.
\<close>

subsection \<open>The mutex\<close>

datatype mutex = Free | Held

text \<open>
  Modelled from the spec: the class \<^verbatim>\<open>AsyncMutex\<close> is imported from the package
  \<^verbatim>\<open>async-mutex\<close>, which is not among the sources. The spec describes it as a
  mutual-exclusion primitive with the binary state free/held: \<^verbatim>\<open>acquire()\<close> resolves
  once the lock is free and takes it, and the \<^verbatim>\<open>release\<close> function it resolves to
  frees the lock. An \<open>acquire\<close> on a held lock does not resolve: \<open>None\<close>.
\<close>

definition acquire :: "mutex \<Rightarrow> mutex option" where
  "acquire m = (case m of Free \<Rightarrow> Some Held | Held \<Rightarrow> None)"

definition release :: "mutex \<Rightarrow> mutex" where
  "release m = Free"

record lockable =
  mutex :: mutex

text \<open>
  The frame shared by every method: acquire, run the body with the lock held,
  release in \<^verbatim>\<open>finally\<close> on every exit of the body (a thrown error is a value
  of the body's result, so the release is the same on both exits).
\<close>

definition guarded ::
  "('a lockable_scheme \<Rightarrow> 'r \<times> 'a lockable_scheme) \<Rightarrow> 'a lockable_scheme \<Rightarrow>
   ('r \<times> 'a lockable_scheme) option" where
  "guarded body this =
     (case acquire (mutex this) of
        None \<Rightarrow> None
      | Some m \<Rightarrow>
          (case body (this\<lparr>mutex := m\<rparr>) of
             (r, this') \<Rightarrow> Some (r, this'\<lparr>mutex := release (mutex this')\<rparr>)))"

subsection \<open>JavaScript numbers\<close>

text \<open>
  A JavaScript number is an IEEE 754 double: \<^verbatim>\<open>NaN\<close>, an infinity, or a finite value
  \<open>m * 2 ^ e\<close> with \<open>\<bar>m\<bar> < 2 ^ 53\<close> and \<open>- 1074 \<le> e\<close>, below \<open>2 ^ 1024\<close> in magnitude.
  A finite value is kept as the rational it denotes (the two zeros are one value).
  Every arithmetic operation rounds its exact result to the nearest double, a tie
  to the one with the even mantissa, and to an infinity from \<open>2 ^ 1024 - 2 ^ 970\<close> on.
  A quantity that is left out arrives as \<^verbatim>\<open>undefined\<close>, which \<^verbatim>\<open><\<close> and \<^verbatim>\<open>-\<close> convert
  to \<^verbatim>\<open>NaN\<close>.
\<close>

datatype double = NaN | NegInf | PosInf | Fin rat

definition pow2 :: "int \<Rightarrow> rat" where
  "pow2 e = (if 0 \<le> e then 2 ^ nat e else 1 / 2 ^ nat (- e))"

text \<open>The exponent \<open>e\<close> with \<open>2 ^ e \<le> a < 2 ^ (e + 1)\<close> of a positive rational.\<close>

definition ilog2 :: "rat \<Rightarrow> int" where
  "ilog2 a =
     (case quotient_of a of
        (p, q) \<Rightarrow> let d = bitlen p - bitlen q in if pow2 d \<le> a then d else d - 1)"

definition roundHalfEven :: "rat \<Rightarrow> int" where
  "roundHalfEven x =
     (let f = \<lfloor>x\<rfloor>; r = x - of_int f in
      if r < 1 / 2 then f else if 1 / 2 < r then f + 1 else if even f then f else f + 1)"

definition roundDouble :: "rat \<Rightarrow> double" where
  "roundDouble x =
     (if x = 0 then Fin 0
      else let a = \<bar>x\<bar>;
               u = pow2 (max (ilog2 a) (- 1022) - 52);
               y = of_int (roundHalfEven (a / u)) * u
           in if pow2 1024 \<le> y then (if 0 < x then PosInf else NegInf)
              else Fin (if 0 < x then y else - y))"

fun negDouble :: "double \<Rightarrow> double" where
  "negDouble NaN = NaN"
| "negDouble NegInf = PosInf"
| "negDouble PosInf = NegInf"
| "negDouble (Fin a) = Fin (- a)"

fun addDouble :: "double \<Rightarrow> double \<Rightarrow> double" where
  "addDouble (Fin a) (Fin b) = roundDouble (a + b)"
| "addDouble NaN y = NaN"
| "addDouble x NaN = NaN"
| "addDouble PosInf NegInf = NaN"
| "addDouble NegInf PosInf = NaN"
| "addDouble PosInf y = PosInf"
| "addDouble x PosInf = PosInf"
| "addDouble NegInf y = NegInf"
| "addDouble x NegInf = NegInf"

fun lessDouble :: "double \<Rightarrow> double \<Rightarrow> bool" where
  "lessDouble (Fin a) (Fin b) = (a < b)"
| "lessDouble NaN y = False"
| "lessDouble x NaN = False"
| "lessDouble x NegInf = False"
| "lessDouble NegInf y = True"
| "lessDouble PosInf y = False"
| "lessDouble x PosInf = True"

definition lessEqDouble :: "double \<Rightarrow> double \<Rightarrow> bool" where
  "lessEqDouble x y = (x \<noteq> NaN \<and> y \<noteq> NaN \<and> \<not> lessDouble y x)"

instantiation double :: "{zero, one, plus, minus, ord}"
begin

definition zero_double_def: "0 = Fin 0"

definition one_double_def: "1 = Fin 1"

definition plus_double_def: "x + y = addDouble x y"

definition minus_double_def: "x - y = addDouble x (negDouble y)"

definition less_double_def: "x < y = lessDouble x y"

definition less_eq_double_def: "x \<le> y = lessEqDouble x y"

instance ..

end

subsection \<open>ThreadSafeCounter\<close>

record 'n ThreadSafeCounter = lockable +
  counter :: 'n

definition new_ThreadSafeCounter :: "'n::zero ThreadSafeCounter" where
  "new_ThreadSafeCounter = \<lparr>mutex = Free, counter = 0\<rparr>"

definition increment ::
  "'n::{one, plus} ThreadSafeCounter \<Rightarrow> ('n \<times> 'n ThreadSafeCounter) option" where
  "increment =
     guarded (\<lambda>this. let this' = this\<lparr>counter := counter this + 1\<rparr>
                      in (counter this', this'))"

definition getValue :: "'n ThreadSafeCounter \<Rightarrow> ('n \<times> 'n ThreadSafeCounter) option" where
  "getValue = guarded (\<lambda>this. (counter this, this))"

subsection \<open>ThreadSafeCache\<close>

text \<open>
  A JavaScript \<^verbatim>\<open>Map\<close> stores any value, \<^verbatim>\<open>undefined\<close> among them, and
  \<^verbatim>\<open>Map.prototype.get\<close> answers \<^verbatim>\<open>undefined\<close> for a key it does not hold. The
  values of the cache are therefore \<^verbatim>\<open>undefined\<close> or some other value.
\<close>

datatype 'a jsval = Undefined | Defined 'a

record ('k, 'a) ThreadSafeCache = lockable +
  cache :: "'k \<rightharpoonup> 'a jsval"

definition new_ThreadSafeCache :: "('k, 'a) ThreadSafeCache" where
  "new_ThreadSafeCache = \<lparr>mutex = Free, cache = Map.empty\<rparr>"

definition map_get :: "('k \<rightharpoonup> 'a jsval) \<Rightarrow> 'k \<Rightarrow> 'a jsval" where
  "map_get m key = (case m key of None \<Rightarrow> Undefined | Some v \<Rightarrow> v)"

definition cache_set ::
  "'k \<Rightarrow> 'a jsval \<Rightarrow> ('k, 'a) ThreadSafeCache \<Rightarrow> (unit \<times> ('k, 'a) ThreadSafeCache) option" where
  "cache_set key val = guarded (\<lambda>this. ((), this\<lparr>cache := (cache this)(key \<mapsto> val)\<rparr>))"

definition cache_get ::
  "'k \<Rightarrow> ('k, 'a) ThreadSafeCache \<Rightarrow> ('a jsval \<times> ('k, 'a) ThreadSafeCache) option" where
  "cache_get key = guarded (\<lambda>this. (map_get (cache this) key, this))"

definition cache_delete ::
  "'k \<Rightarrow> ('k, 'a) ThreadSafeCache \<Rightarrow> (bool \<times> ('k, 'a) ThreadSafeCache) option" where
  "cache_delete key =
     guarded (\<lambda>this. (cache this key \<noteq> None, this\<lparr>cache := (cache this)(key := None)\<rparr>))"

subsection \<open>ThreadSafeInventory\<close>

datatype error = Error string

record ('k, 'n) ThreadSafeInventory = lockable +
  inventory :: "'k \<rightharpoonup> 'n"

definition new_ThreadSafeInventory :: "('k, 'n) ThreadSafeInventory" where
  "new_ThreadSafeInventory = \<lparr>mutex = Free, inventory = Map.empty\<rparr>"

text \<open>The expression \<^verbatim>\<open>this.inventory.get(productId) ?? 0\<close> of both readers.\<close>

definition currentStock :: "('k \<rightharpoonup> 'n) \<Rightarrow> 'k \<Rightarrow> 'n::zero" where
  "currentStock stocks productId = (case stocks productId of None \<Rightarrow> 0 | Some s \<Rightarrow> s)"

definition initializeProduct ::
  "'k \<Rightarrow> 'n \<Rightarrow> ('k, 'n) ThreadSafeInventory \<Rightarrow> (unit \<times> ('k, 'n) ThreadSafeInventory) option" where
  "initializeProduct productId initialStock =
     guarded (\<lambda>this. ((), this\<lparr>inventory := (inventory this)(productId \<mapsto> initialStock)\<rparr>))"

definition reserveStock ::
  "'k \<Rightarrow> 'n::{zero, minus, ord} \<Rightarrow> ('k, 'n) ThreadSafeInventory \<Rightarrow>
   ((error + bool) \<times> ('k, 'n) ThreadSafeInventory) option" where
  "reserveStock productId quantity =
     guarded (\<lambda>this.
       let stock = currentStock (inventory this) productId in
       if stock < quantity then (Inl (Error ''Insufficient stock''), this)
       else (Inr True, this\<lparr>inventory := (inventory this)(productId \<mapsto> stock - quantity)\<rparr>))"

definition getStock ::
  "'k \<Rightarrow> ('k, 'n::zero) ThreadSafeInventory \<Rightarrow>
   ('n \<times> ('k, 'n) ThreadSafeInventory) option" where
  "getStock productId = guarded (\<lambda>this. (currentStock (inventory this) productId, this))"

subsection \<open>ThreadSafeOperation\<close>

text \<open>
  The object has the mutex as its only field. The operation handed to
  \<^verbatim>\<open>execute\<close> is a closure over state of its own, the \<open>world\<close>; it settles with
  a thrown error (\<open>Inl\<close>) or a value (\<open>Inr\<close>), or never settles (\<open>None\<close>).
  It does not reach the wrapper's own mutex (the spec: operations are leaf-level
  and never re-enter the store). \<^verbatim>\<open>console.error\<close> appends to the \<open>console\<close>.
\<close>

type_synonym ThreadSafeOperation = lockable

record ('e, 'w) env =
  console :: "'e list"
  world :: 'w

definition new_ThreadSafeOperation :: ThreadSafeOperation where
  "new_ThreadSafeOperation = \<lparr>mutex = Free\<rparr>"

definition execute ::
  "('w \<Rightarrow> (('e + 'r) \<times> 'w) option) \<Rightarrow> ThreadSafeOperation \<times> ('e, 'w) env \<Rightarrow>
   (('e + 'r) \<times> ThreadSafeOperation \<times> ('e, 'w) env) option" where
  "execute operation st =
     (case st of (this, ev) \<Rightarrow>
        (case acquire (mutex this) of
           None \<Rightarrow> None
         | Some m \<Rightarrow>
             (case operation (world ev) of
                None \<Rightarrow> None
              | Some (Inr r, w) \<Rightarrow>
                  Some (Inr r, this\<lparr>mutex := release m\<rparr>, ev\<lparr>world := w\<rparr>)
              | Some (Inl e, w) \<Rightarrow>
                  Some (Inl e, this\<lparr>mutex := release m\<rparr>,
                        ev\<lparr>console := console ev @ [e], world := w\<rparr>))))"

subsection \<open>Sequences of inventory calls\<close>

text \<open>
  A caller that awaits each call before it issues the next, as
  \<^verbatim>\<open>runExamples\<close> does, runs a list of calls; its outcomes are collected in order.
\<close>

datatype ('k, 'n) call = InitializeProduct 'k 'n | ReserveStock 'k 'n | GetStock 'k

datatype 'n outcome = Initialized | Reserved bool | Stock 'n | Rejected error

fun perform ::
  "('k, 'n::{zero, minus, ord}) call \<Rightarrow> ('k, 'n) ThreadSafeInventory \<Rightarrow>
   ('n outcome \<times> ('k, 'n) ThreadSafeInventory) option" where
  "perform (InitializeProduct k n) this =
     (case initializeProduct k n this of None \<Rightarrow> None | Some (u, this') \<Rightarrow> Some (Initialized, this'))"
| "perform (ReserveStock k q) this =
     (case reserveStock k q this of
        None \<Rightarrow> None
      | Some (Inl e, this') \<Rightarrow> Some (Rejected e, this')
      | Some (Inr b, this') \<Rightarrow> Some (Reserved b, this'))"
| "perform (GetStock k) this =
     (case getStock k this of None \<Rightarrow> None | Some (n, this') \<Rightarrow> Some (Stock n, this'))"

fun run ::
  "('k, 'n::{zero, minus, ord}) call list \<Rightarrow> ('k, 'n) ThreadSafeInventory \<Rightarrow>
   ('n outcome list \<times> ('k, 'n) ThreadSafeInventory) option" where
  "run [] this = Some ([], this)"
| "run (c # cs) this =
     (case perform c this of
        None \<Rightarrow> None
      | Some (out, this') \<Rightarrow>
          (case run cs this' of
             None \<Rightarrow> None
           | Some (outs, this'') \<Rightarrow> Some (out # outs, this'')))"

text \<open>
  What the sequences of calls are measured with. A stock is nonnegative when
  \<^verbatim>\<open>0 <= stock\<close> holds for it, which \<^verbatim>\<open>NaN\<close> does not satisfy. The rational a finite
  double denotes is its \<open>amount\<close>; \<open>reservedTotal\<close> is the exact sum of the quantities
  that the calls reserved of product \<open>p\<close> with success.
\<close>

fun isFinite :: "double \<Rightarrow> bool" where
  "isFinite (Fin a) = True"
| "isFinite x = False"

fun amount :: "double \<Rightarrow> rat" where
  "amount (Fin a) = a"
| "amount x = 0"

fun reserved :: "'k \<Rightarrow> ('k, double) call \<Rightarrow> double outcome \<Rightarrow> rat" where
  "reserved p (ReserveStock k q) (Reserved True) = (if k = p then amount q else 0)"
| "reserved p c out = 0"

definition reservedTotal ::
  "'k \<Rightarrow> ('k, double) call list \<Rightarrow> double outcome list \<Rightarrow> rat" where
  "reservedTotal p cs outs = sum_list (map (\<lambda>(c, out). reserved p c out) (zip cs outs))"

definition nonnegative :: "('k, double) ThreadSafeInventory \<Rightarrow> bool" where
  "nonnegative this = (\<forall>k s. inventory this k = Some s \<longrightarrow> 0 \<le> s)"

fun initializes :: "'k \<Rightarrow> ('k, 'n) call \<Rightarrow> bool" where
  "initializes p (InitializeProduct k n) = (k = p)"
| "initializes p c = False"

fun admissible :: "('k, double) call \<Rightarrow> bool" where
  "admissible (InitializeProduct k n) = (0 \<le> n)"
| "admissible (ReserveStock k q) = isFinite q"
| "admissible (GetStock k) = True"

text \<open>
  The numbers on which the subtraction of \<^verbatim>\<open>reserveStock\<close> is exact: stocks that
  are integers from \<open>0\<close> to \<open>2 ^ 53\<close>, and quantities that are nonnegative integers.
\<close>

fun wholeStock :: "double \<Rightarrow> bool" where
  "wholeStock (Fin a) = (of_int \<lfloor>a\<rfloor> = a \<and> 0 \<le> a \<and> a \<le> 2 ^ 53)"
| "wholeStock x = False"

fun wholeQuantity :: "double \<Rightarrow> bool" where
  "wholeQuantity (Fin a) = (of_int \<lfloor>a\<rfloor> = a \<and> 0 \<le> a)"
| "wholeQuantity x = False"

definition whole :: "('k, double) ThreadSafeInventory \<Rightarrow> bool" where
  "whole this = (\<forall>k s. inventory this k = Some s \<longrightarrow> wholeStock s)"

fun wholeCall :: "('k, double) call \<Rightarrow> bool" where
  "wholeCall (InitializeProduct k n) = wholeStock n"
| "wholeCall (ReserveStock k q) = wholeQuantity q"
| "wholeCall (GetStock k) = True"

subsection \<open>Concurrently issued increments\<close>

text \<open>
  Several calls of \<^verbatim>\<open>increment\<close> on one counter, each at its own place in the
  method body. A scheduler picks, step by step, a call that executes its next
  statement; the read and the write of \<^verbatim>\<open>this.counter += 1\<close> are separate steps,
  so the schedules of this model include every order in which the event loop can
  run the calls. The counter is an integer here: it starts at 0 and the calls take
  it no further than their number, which stays far below \<open>2 ^ 53\<close>, where adding 1
  to a JavaScript number is exact.
\<close>

datatype pc =
    Acquiring           \<comment> \<open>at \<^verbatim>\<open>await this.mutex.acquire()\<close>\<close>
  | Entered             \<comment> \<open>in \<^verbatim>\<open>try\<close>, before \<^verbatim>\<open>this.counter += 1\<close>\<close>
  | Loaded int          \<comment> \<open>has read \<^verbatim>\<open>this.counter\<close>\<close>
  | Stored              \<comment> \<open>has written \<^verbatim>\<open>this.counter\<close>\<close>
  | Returning int       \<comment> \<open>has evaluated \<^verbatim>\<open>return this.counter\<close>, before \<^verbatim>\<open>finally\<close>\<close>
  | Finished int        \<comment> \<open>released and resolved with the value\<close>

record system =
  shared :: "int ThreadSafeCounter"
  tasks :: "pc list"

definition issue :: "nat \<Rightarrow> system" where
  "issue N = \<lparr>shared = new_ThreadSafeCounter, tasks = replicate N Acquiring\<rparr>"

definition fire :: "nat \<Rightarrow> system \<Rightarrow> system option" where
  "fire i s =
     (if length (tasks s) \<le> i then None
      else case tasks s ! i of
          Acquiring \<Rightarrow>
            (case acquire (mutex (shared s)) of
               None \<Rightarrow> None
             | Some m \<Rightarrow> Some (s\<lparr>shared := (shared s)\<lparr>mutex := m\<rparr>,
                                tasks := (tasks s)[i := Entered]\<rparr>))
        | Entered \<Rightarrow> Some (s\<lparr>tasks := (tasks s)[i := Loaded (counter (shared s))]\<rparr>)
        | Loaded c \<Rightarrow> Some (s\<lparr>shared := (shared s)\<lparr>counter := c + 1\<rparr>,
                              tasks := (tasks s)[i := Stored]\<rparr>)
        | Stored \<Rightarrow> Some (s\<lparr>tasks := (tasks s)[i := Returning (counter (shared s))]\<rparr>)
        | Returning v \<Rightarrow>
            Some (s\<lparr>shared := (shared s)\<lparr>mutex := release (mutex (shared s))\<rparr>,
                    tasks := (tasks s)[i := Finished v]\<rparr>)
        | Finished v \<Rightarrow> None)"

fun exec :: "nat list \<Rightarrow> system \<Rightarrow> system option" where
  "exec [] s = Some s"
| "exec (i # sched) s = (case fire i s of None \<Rightarrow> None | Some s' \<Rightarrow> exec sched s')"

fun finished :: "pc \<Rightarrow> bool" where
  "finished (Finished v) = True"
| "finished p = False"

definition completed :: "system \<Rightarrow> bool" where
  "completed s = list_all finished (tasks s)"

text \<open>
  What the proof of the concurrent counter keeps track of: the calls that have
  written the counter, the calls that are between acquire and release, and the
  number of statements a call still has to execute.
\<close>

fun wrote :: "pc \<Rightarrow> bool" where
  "wrote Stored = True"
| "wrote (Returning v) = True"
| "wrote (Finished v) = True"
| "wrote p = False"

fun inside :: "pc \<Rightarrow> bool" where
  "inside Acquiring = False"
| "inside (Finished v) = False"
| "inside p = True"

fun rank :: "pc \<Rightarrow> nat" where
  "rank Acquiring = 5"
| "rank Entered = 4"
| "rank (Loaded c) = 3"
| "rank Stored = 2"
| "rank (Returning v) = 1"
| "rank (Finished v) = 0"

definition remaining :: "system \<Rightarrow> nat" where
  "remaining s = sum_list (map rank (tasks s))"

definition consistent :: "system \<Rightarrow> bool" where
  "consistent s =
     (counter (shared s) = int (length (filter wrote (tasks s))) \<and>
      (mutex (shared s) = Held) = (\<exists>i < length (tasks s). inside (tasks s ! i)) \<and>
      (\<forall>i < length (tasks s). \<forall>j < length (tasks s).
          inside (tasks s ! i) \<and> inside (tasks s ! j) \<longrightarrow> i = j) \<and>
      (\<forall>j < length (tasks s). \<forall>c. tasks s ! j = Loaded c \<longrightarrow> c = counter (shared s)))"

section \<open>Properties\<close>

subsection \<open>The frame of a method\<close>

lemma guarded_Free:
  "mutex this = Free \<Longrightarrow>
   guarded body this =
     (case body (this\<lparr>mutex := Held\<rparr>) of (r, this') \<Rightarrow> Some (r, this'\<lparr>mutex := Free\<rparr>))"
  by (simp add: guarded_def acquire_def release_def)

lemma guarded_Held: "mutex this = Held \<Longrightarrow> guarded body this = None"
  by (simp add: guarded_def acquire_def)

lemma relock: "mutex this = Free \<Longrightarrow> this\<lparr>mutex := Free\<rparr> = this"
  by (cases this) simp

lemma initializeProduct_Free:
  "mutex this = Free \<Longrightarrow>
   initializeProduct k n this = Some ((), this\<lparr>inventory := (inventory this)(k \<mapsto> n)\<rparr>)"
  by (simp add: initializeProduct_def guarded_Free relock)

lemma reserveStock_Free:
  "mutex this = Free \<Longrightarrow>
   reserveStock k q this =
     (if currentStock (inventory this) k < q then Some (Inl (Error ''Insufficient stock''), this)
      else Some (Inr True,
                 this\<lparr>inventory := (inventory this)(k \<mapsto> currentStock (inventory this) k - q)\<rparr>))"
  by (simp add: reserveStock_def guarded_Free Let_def relock)

lemma getStock_Free:
  "mutex this = Free \<Longrightarrow> getStock k this = Some (currentStock (inventory this) k, this)"
  by (simp add: getStock_def guarded_Free relock)

subsection \<open>JavaScript numbers\<close>

lemma roundHalfEven_of_int: "roundHalfEven (of_int n) = n"
  by (simp add: roundHalfEven_def)

lemma pow2_pos: "0 < pow2 e"
  by (simp add: pow2_def)

lemma ilog2_of_int_le:
  assumes "0 < z" and "z < 2 ^ 53"
  shows "ilog2 (of_int z) \<le> 52"
proof -
  have q: "quotient_of (of_int z) = (z, 1)"
    by (metis Rat.of_int_def quotient_of_int)
  have "bitlen z \<le> 53" using assms(2) by (simp add: bitlen_le_iff_power)
  then show ?thesis
    by (simp add: ilog2_def q Let_def bitlen_def floorlog_def)
qed

lemma roundDouble_pos_int:
  assumes "0 < z" and "z < 2 ^ 53"
  shows "roundDouble (of_int z) = Fin (of_int z)"
proof -
  define k where "k = max (ilog2 (of_int z)) (- 1022) - 52"
  define n where "n = nat (- k)"
  have k: "k \<le> 0" using ilog2_of_int_le [OF assms] by (simp add: k_def)
  then have u: "pow2 k = 1 / 2 ^ n" by (auto simp: pow2_def n_def)
  have s: "(of_int z :: rat) / pow2 k = of_int (z * 2 ^ n)" by (simp add: u)
  have y: "of_int (roundHalfEven (of_int z / pow2 k)) * pow2 k = (of_int z :: rat)"
    unfolding s roundHalfEven_of_int by (simp add: u)
  have "(of_int z :: rat) < 2 ^ 53" using assms(2) by (metis of_int_less_numeral_power_cancel_iff)
  also have "\<dots> < pow2 1024" by (simp add: pow2_def)
  finally have o: "\<not> pow2 1024 \<le> (of_int z :: rat)" by simp
  from assms(1) have a: "\<bar>of_int z :: rat\<bar> = of_int z" "(of_int z :: rat) \<noteq> 0" "0 < (of_int z :: rat)"
    by simp_all
  show ?thesis
    unfolding roundDouble_def a Let_def k_def [symmetric] y using a o by simp
qed

lemma roundDouble_minus: "roundDouble (- x) = negDouble (roundDouble x)"
  by (cases "x = 0") (auto simp: roundDouble_def Let_def)

lemma roundDouble_two_53: "roundDouble (2 ^ 53) = Fin (2 ^ 53)"
  by code_simp

lemma roundDouble_nat:
  assumes "0 \<le> z" and "z \<le> 2 ^ 53"
  shows "roundDouble (of_int z) = Fin (of_int z)"
proof -
  consider "z = 0" | "0 < z" "z < 2 ^ 53" | "z = 2 ^ 53" using assms by linarith
  then show ?thesis
  proof cases
    case 1
    then show ?thesis by (simp add: roundDouble_def)
  next
    case 2
    then show ?thesis by (rule roundDouble_pos_int)
  next
    case 3
    then show ?thesis using roundDouble_two_53 by simp
  qed
qed

lemma roundDouble_int:
  assumes "\<bar>z\<bar> \<le> 2 ^ 53"
  shows "roundDouble (of_int z) = Fin (of_int z)"
proof (cases "0 \<le> z")
  case True
  with assms show ?thesis by (simp add: roundDouble_nat)
next
  case False
  with assms have "roundDouble (of_int (- z)) = Fin (of_int (- z))"
    by (intro roundDouble_nat) simp_all
  then have "negDouble (roundDouble (of_int z)) = Fin (- of_int z)"
    by (simp add: roundDouble_minus)
  then show ?thesis by (cases "roundDouble (of_int z)") simp_all
qed

lemma roundDouble_nonneg:
  assumes "0 \<le> x"
  shows "roundDouble x = PosInf \<or> (\<exists>y. roundDouble x = Fin y \<and> 0 \<le> y)"
proof (cases "x = 0")
  case True
  then show ?thesis by (simp add: roundDouble_def)
next
  case False
  with assms have x: "0 < x" by simp
  define u where "u = pow2 (max (ilog2 \<bar>x\<bar>) (- 1022) - 52)"
  have u: "0 < u" by (simp add: u_def pow2_pos)
  with x have "0 \<le> \<bar>x\<bar> / u" by simp
  then have "0 \<le> roundHalfEven (\<bar>x\<bar> / u)"
    by (auto simp: roundHalfEven_def Let_def)
  with u have "0 \<le> of_int (roundHalfEven (\<bar>x\<bar> / u)) * u" by simp
  with x show ?thesis
    by (auto simp: roundDouble_def Let_def u_def)
qed

lemma sub_nonneg:
  assumes "0 \<le> s" and "isFinite q" and "\<not> s < q"
  shows "0 \<le> s - (q :: double)"
proof -
  from assms(2) obtain b where q: "q = Fin b" by (cases q) simp_all
  show ?thesis
  proof (cases s)
    case (Fin a)
    with assms q have "0 \<le> a - b"
      by (simp add: less_double_def less_eq_double_def lessEqDouble_def zero_double_def)
    from roundDouble_nonneg [OF this] Fin q show ?thesis
      by (auto simp: minus_double_def less_eq_double_def lessEqDouble_def zero_double_def)
  next
    case PosInf
    with q show ?thesis
      by (simp add: minus_double_def less_eq_double_def lessEqDouble_def zero_double_def)
  qed (use assms in \<open>simp_all add: less_eq_double_def lessEqDouble_def zero_double_def\<close>)
qed

lemma sub_negative_less:
  assumes "s - q < (0 :: double)"
  shows "s < q"
proof (cases s; cases q)
  fix a b assume sq: "s = Fin a" "q = Fin b"
  show ?thesis
  proof (rule ccontr)
    assume "\<not> s < q"
    with sq have "0 \<le> a - b" by (simp add: less_double_def)
    from roundDouble_nonneg [OF this] assms sq show False
      by (auto simp: minus_double_def less_double_def zero_double_def)
  qed
qed (use assms in \<open>simp_all add: minus_double_def less_double_def zero_double_def\<close>)

lemma wholeStockE:
  assumes "wholeStock s"
  obtains a where "s = Fin (of_int a)" and "0 \<le> a" and "a \<le> 2 ^ 53"
proof (cases s)
  case (Fin x)
  with assms have x: "of_int \<lfloor>x\<rfloor> = x" "0 \<le> x" "x \<le> 2 ^ 53" by simp_all
  from x(1,2) have "0 \<le> \<lfloor>x\<rfloor>" by simp
  moreover from x(3) have "\<lfloor>x\<rfloor> \<le> 2 ^ 53" by (simp add: floor_le_iff)
  ultimately show ?thesis using that [of "\<lfloor>x\<rfloor>"] Fin x(1) by simp
qed (use assms in simp_all)

lemma wholeQuantityE:
  assumes "wholeQuantity q"
  obtains b where "q = Fin (of_int b)" and "0 \<le> b"
proof (cases q)
  case (Fin x)
  with assms have x: "of_int \<lfloor>x\<rfloor> = x" "0 \<le> x" by simp_all
  from x have "0 \<le> \<lfloor>x\<rfloor>" by simp
  then show ?thesis using that [of "\<lfloor>x\<rfloor>"] Fin x(1) by simp
qed (use assms in simp_all)

lemma wholeStock_of_int: "0 \<le> a \<Longrightarrow> a \<le> 2 ^ 53 \<Longrightarrow> wholeStock (Fin (of_int a))"
  by simp

lemma sub_whole:
  assumes "wholeStock s" and "wholeQuantity q" and "\<not> s < q"
  shows "wholeStock (s - q) \<and> amount (s - q) = amount s - amount q"
proof -
  from assms(1) obtain a where s: "s = Fin (of_int a)" "0 \<le> a" "a \<le> 2 ^ 53"
    by (rule wholeStockE)
  from assms(2) obtain b where q: "q = Fin (of_int b)" "0 \<le> b"
    by (rule wholeQuantityE)
  from assms(3) s q have "b \<le> a" by (simp add: less_double_def)
  with s q have d: "\<bar>a - b\<bar> \<le> 2 ^ 53" "0 \<le> a - b" "a - b \<le> 2 ^ 53" by simp_all
  have "s - q = Fin (of_int (a - b))"
    using roundDouble_int [OF d(1)] s q by (simp add: minus_double_def)
  with d(2,3) s q show ?thesis
    using wholeStock_of_int [of "a - b"] by simp
qed

text \<open>
  On integers of magnitude at most \<open>2 ^ 53\<close> the operations of \<open>double\<close> are those
  of \<open>int\<close>.
\<close>

lemma double_agrees_with_int:
  "(Fin (of_int a) < Fin (of_int b)) = (a < b)"
  "\<bar>a - b\<bar> \<le> 2 ^ 53 \<Longrightarrow> Fin (of_int a) - Fin (of_int b) = Fin (of_int (a - b))"
  "\<bar>a + 1\<bar> \<le> 2 ^ 53 \<Longrightarrow> Fin (of_int a) + 1 = Fin (of_int (a + 1))"
  using roundDouble_int [of "a - b"] roundDouble_int [of "a + 1"]
  by (simp_all add: less_double_def minus_double_def plus_double_def one_double_def)

text \<open>
  Some values of the rounding: ties go to the even mantissa, and the sum of the
  doubles nearest to 0.1 and 0.2 is the double nearest to 0.30000000000000004.
\<close>

lemma roundDouble_examples:
  "roundDouble (2 ^ 53 + 1) = Fin (2 ^ 53)"
  "roundDouble (2 ^ 53 + 3) = Fin (2 ^ 53 + 4)"
  "roundDouble (3602879701896397 / 2 ^ 55 + 3602879701896397 / 2 ^ 54) =
     Fin (1351079888211149 / 2 ^ 52)"
  by code_simp+

subsection \<open>The counter\<close>

lemma succ_two_53: "(Fin (2 ^ 53) :: double) + 1 = Fin (2 ^ 53)"
proof -
  have "roundDouble (2 ^ 53 + 1) = Fin (2 ^ 53)" by code_simp
  then show ?thesis by (simp add: plus_double_def one_double_def)
qed

text \<open>
  Claim C6, as stated: for every counter state \<open>n\<close>, \<^verbatim>\<open>increment()\<close> stores and
  returns \<open>n + 1\<close>. It does not hold for the JavaScript number \<open>2 ^ 53\<close>, whose
  successor is no double: the counter stays \<open>2 ^ 53\<close>, and that value is returned.
\<close>

theorem increment_at_two_53_counterexample:
  "roundDouble (2 ^ 53) = Fin (2 ^ 53) \<and>
   increment \<lparr>mutex = Free, counter = Fin (2 ^ 53)\<rparr> =
     Some (Fin (2 ^ 53), \<lparr>mutex = Free, counter = Fin (2 ^ 53)\<rparr>) \<and>
   amount (Fin (2 ^ 53)) \<noteq> 2 ^ 53 + 1"
  using roundDouble_two_53 succ_two_53 by (simp add: increment_def guarded_Free Let_def)

text \<open>
  Claim C6, amended. \<^verbatim>\<open>increment()\<close> stores and returns the double nearest to
  \<open>n + 1\<close>; for every integer \<open>n\<close> with \<open>- 2 ^ 53 \<le> n < 2 ^ 53\<close> that is \<open>n + 1\<close> itself.
  (The call is issued with the lock free, as it is between any two completed calls.)
\<close>

theorem increment_stores_and_returns_double_successor:
  "mutex this = Free \<Longrightarrow>
   increment this = Some (counter this + 1, this\<lparr>counter := counter this + 1\<rparr>) \<and>
   (\<forall>n. - (2 ^ 53) \<le> n \<and> n < 2 ^ 53 \<and> counter this = Fin (of_int n) \<longrightarrow>
      increment this = Some (Fin (of_int (n + 1)), this\<lparr>counter := Fin (of_int (n + 1))\<rparr>))"
proof -
  assume free: "mutex this = Free"
  have i: "increment this = Some (counter this + 1, this\<lparr>counter := counter this + 1\<rparr>)"
    using free by (simp add: increment_def guarded_Free Let_def)
  have "counter this + 1 = Fin (of_int (n + 1))"
    if "- (2 ^ 53) \<le> n" "n < 2 ^ 53" "counter this = Fin (of_int n)" for n
  proof -
    from that(1,2) have "\<bar>n + 1\<bar> \<le> 2 ^ 53" by simp
    from roundDouble_int [OF this] that(3) show ?thesis
      by (simp add: plus_double_def one_double_def)
  qed
  with i show ?thesis by simp
qed

theorem increment_stores_and_returns_double_successor_witness:
  "mutex \<lparr>mutex = Free, counter = Fin (of_int 41)\<rparr> = Free \<and>
   - (2 ^ 53) \<le> (41 :: int) \<and> (41 :: int) < 2 ^ 53 \<and>
   increment \<lparr>mutex = Free, counter = Fin (of_int 41)\<rparr> =
     Some (Fin (of_int 42), \<lparr>mutex = Free, counter = Fin (of_int 42)\<rparr>)"
proof -
  have f: "mutex \<lparr>mutex = Free, counter = Fin (of_int 41)\<rparr> = Free" by simp
  from increment_stores_and_returns_double_successor [OF f]
  have "- (2 ^ 53) \<le> (41 :: int) \<and> (41 :: int) < 2 ^ 53 \<and>
        counter \<lparr>mutex = Free, counter = Fin (of_int 41)\<rparr> = Fin (of_int 41) \<longrightarrow>
        increment \<lparr>mutex = Free, counter = Fin (of_int 41)\<rparr> =
          Some (Fin (of_int (41 + 1)),
                \<lparr>mutex = Free, counter = Fin (of_int 41)\<rparr>\<lparr>counter := Fin (of_int (41 + 1))\<rparr>)"
    by blast
  then show ?thesis by simp
qed

subsection \<open>The inventory\<close>

lemma sub_ten_16: "(Fin 10000000000000000 :: double) - Fin 1 = Fin 10000000000000000"
proof -
  have "roundDouble (10000000000000000 - 1) = Fin 10000000000000000" by code_simp
  then show ?thesis by (simp add: minus_double_def)
qed

text \<open>
  Claim C2, as stated: a reservation that does not exceed the stock decrements the
  stock by the quantity. It does not hold where the difference is no double: with
  stock \<open>10 ^ 16\<close> a reservation of 1 succeeds and leaves the stock \<open>10 ^ 16\<close>.
\<close>

theorem reserveStock_decrement_counterexample:
  "roundDouble 10000000000000000 = Fin 10000000000000000 \<and>
   initializeProduct ''PROD-1'' (Fin 10000000000000000) new_ThreadSafeInventory =
     Some ((), new_ThreadSafeInventory\<lparr>inventory := [''PROD-1'' \<mapsto> Fin 10000000000000000]\<rparr>) \<and>
   reserveStock ''PROD-1'' (Fin 1)
     (new_ThreadSafeInventory\<lparr>inventory := [''PROD-1'' \<mapsto> Fin 10000000000000000]\<rparr>) =
     Some (Inr True,
           new_ThreadSafeInventory\<lparr>inventory := [''PROD-1'' \<mapsto> Fin 10000000000000000]\<rparr>) \<and>
   amount (Fin 10000000000000000) \<noteq> 10000000000000000 - 1"
proof -
  have "roundDouble 10000000000000000 = Fin 10000000000000000" by code_simp
  then show ?thesis
    by (simp add: new_ThreadSafeInventory_def initializeProduct_Free reserveStock_Free
          currentStock_def less_double_def sub_ten_16)
qed

text \<open>
  Claim C2, amended. For every inventory state, product and quantity,
  \<^verbatim>\<open>reserveStock\<close> reads the current stock of the product, an absent product counting
  as stock 0. If the quantity exceeds the stock it fails with the error
  \<^verbatim>\<open>Insufficient stock\<close> and the inventory is as before; otherwise it stores the
  double nearest to stock minus quantity and returns \<^verbatim>\<open>true\<close>. The stored value is
  the exact difference when stock and quantity are integers whose difference is at
  most \<open>2 ^ 53\<close>; a quantity \<^verbatim>\<open>NaN\<close> exceeds no stock, so it is accepted and \<^verbatim>\<open>NaN\<close> stored.
\<close>

theorem reserveStock_checks_then_subtracts:
  "mutex this = Free \<Longrightarrow>
   reserveStock productId qty this =
     (let stock = (case inventory this productId of None \<Rightarrow> 0 | Some s \<Rightarrow> s) in
      if qty > stock then Some (Inl (Error ''Insufficient stock''), this)
      else Some (Inr True, this\<lparr>inventory := (inventory this)(productId \<mapsto> stock - qty)\<rparr>)) \<and>
   (\<forall>a b. currentStock (inventory this) productId = Fin (of_int a) \<and> qty = Fin (of_int b) \<and>
           b \<le> a \<and> a - b \<le> 2 ^ 53 \<longrightarrow>
      reserveStock productId qty this =
        Some (Inr True,
              this\<lparr>inventory := (inventory this)(productId \<mapsto> Fin (of_int (a - b)))\<rparr>)) \<and>
   (qty = NaN \<longrightarrow>
      reserveStock productId qty this =
        Some (Inr True, this\<lparr>inventory := (inventory this)(productId \<mapsto> NaN)\<rparr>))"
proof -
  assume free: "mutex this = Free"
  let ?s = "currentStock (inventory this) productId"
  have 1: "reserveStock productId qty this =
     (let stock = (case inventory this productId of None \<Rightarrow> 0 | Some s \<Rightarrow> s) in
      if qty > stock then Some (Inl (Error ''Insufficient stock''), this)
      else Some (Inr True, this\<lparr>inventory := (inventory this)(productId \<mapsto> stock - qty)\<rparr>))"
    using free by (simp add: reserveStock_Free currentStock_def Let_def)
  have 2: "reserveStock productId qty this =
        Some (Inr True,
              this\<lparr>inventory := (inventory this)(productId \<mapsto> Fin (of_int (a - b)))\<rparr>)"
    if "?s = Fin (of_int a)" "qty = Fin (of_int b)" "b \<le> a" "a - b \<le> 2 ^ 53" for a b :: int
  proof -
    from that(3,4) have "\<bar>a - b\<bar> \<le> 2 ^ 53" by simp
    from roundDouble_int [OF this] that(1,2) have "?s - qty = Fin (of_int (a - b))"
      by (simp add: minus_double_def)
    moreover from that(1,2,3) have "\<not> ?s < qty" by (simp add: less_double_def)
    ultimately show ?thesis using free by (simp add: reserveStock_Free)
  qed
  have 3: "reserveStock productId qty this =
        Some (Inr True, this\<lparr>inventory := (inventory this)(productId \<mapsto> NaN)\<rparr>)"
    if "qty = NaN"
  proof -
    have "\<not> ?s < NaN" by (cases ?s) (simp_all add: less_double_def)
    moreover have "?s - NaN = NaN" by (cases ?s) (simp_all add: minus_double_def)
    ultimately show ?thesis using free that by (simp add: reserveStock_Free)
  qed
  from 1 2 3 show ?thesis by blast
qed

theorem reserveStock_checks_then_subtracts_witness:
  "mutex (new_ThreadSafeInventory\<lparr>inventory := [''PROD-1'' \<mapsto> Fin (of_int 5)]\<rparr>) = Free \<and>
   reserveStock ''PROD-1'' (Fin (of_int 2))
     (new_ThreadSafeInventory\<lparr>inventory := [''PROD-1'' \<mapsto> Fin (of_int 5)]\<rparr>) =
     Some (Inr True, new_ThreadSafeInventory\<lparr>inventory := [''PROD-1'' \<mapsto> Fin (of_int 3)]\<rparr>) \<and>
   reserveStock ''PROD-1'' (Fin 6)
     (new_ThreadSafeInventory\<lparr>inventory := [''PROD-1'' \<mapsto> Fin (of_int 5)]\<rparr>) =
     Some (Inl (Error ''Insufficient stock''),
           new_ThreadSafeInventory\<lparr>inventory := [''PROD-1'' \<mapsto> Fin (of_int 5)]\<rparr>) \<and>
   reserveStock ''PROD-1'' NaN
     (new_ThreadSafeInventory\<lparr>inventory := [''PROD-1'' \<mapsto> Fin (of_int 5)]\<rparr>) =
     Some (Inr True, new_ThreadSafeInventory\<lparr>inventory := [''PROD-1'' \<mapsto> NaN]\<rparr>)"
proof -
  let ?t = "new_ThreadSafeInventory\<lparr>inventory := [''PROD-1'' \<mapsto> Fin (of_int 5)]\<rparr>"
  have f: "mutex ?t = Free" by (simp add: new_ThreadSafeInventory_def)
  have s: "currentStock (inventory ?t) ''PROD-1'' = Fin (of_int 5)"
    by (simp add: currentStock_def)
  from reserveStock_checks_then_subtracts [OF f, of "''PROD-1''" "Fin (of_int 2)"] s
  have a: "reserveStock ''PROD-1'' (Fin (of_int 2)) ?t =
      Some (Inr True, ?t\<lparr>inventory := (inventory ?t)(''PROD-1'' \<mapsto> Fin (of_int (5 - 2)))\<rparr>)"
    by force
  from reserveStock_checks_then_subtracts [OF f, of "''PROD-1''" "Fin 6"]
  have b: "reserveStock ''PROD-1'' (Fin 6) ?t = Some (Inl (Error ''Insufficient stock''), ?t)"
    by (simp add: less_double_def)
  from reserveStock_checks_then_subtracts [OF f, of "''PROD-1''" NaN]
  have c: "reserveStock ''PROD-1'' NaN ?t =
      Some (Inr True, ?t\<lparr>inventory := (inventory ?t)(''PROD-1'' \<mapsto> NaN)\<rparr>)"
    by blast
  from f a b c show ?thesis by simp
qed

text \<open>
  Claim C9. \<^verbatim>\<open>initializeProduct\<close> validates nothing: for every value of
  \<^verbatim>\<open>initialStock\<close>, of any type, and every prior inventory, it sets the stock of the
  product to that value and overwrites what was stored for the product.
\<close>

theorem initializeProduct_overwrites_unconditionally:
  "mutex this = Free \<Longrightarrow>
   initializeProduct productId initialStock this =
     Some ((), this\<lparr>inventory := (inventory this)(productId \<mapsto> initialStock)\<rparr>) \<and>
   inventory (this\<lparr>inventory := (inventory this)(productId \<mapsto> initialStock)\<rparr>) productId =
     Some initialStock"
  by (simp add: initializeProduct_def guarded_Free relock)

theorem initializeProduct_overwrites_unconditionally_witness:
  "mutex (new_ThreadSafeInventory\<lparr>inventory := [''PROD-1'' \<mapsto> (3::rat)]\<rparr>) = Free \<and>
   initializeProduct ''PROD-1'' (- 5 / 2) (new_ThreadSafeInventory\<lparr>inventory := [''PROD-1'' \<mapsto> (3::rat)]\<rparr>) =
     Some ((), new_ThreadSafeInventory\<lparr>inventory := [''PROD-1'' \<mapsto> - 5 / 2]\<rparr>)"
  using initializeProduct_overwrites_unconditionally
          [of "new_ThreadSafeInventory\<lparr>inventory := [''PROD-1'' \<mapsto> (3::rat)]\<rparr>" "''PROD-1''" "- 5 / 2"]
  by (simp add: new_ThreadSafeInventory_def)

text \<open>
  Claim C10. For every product absent from the inventory, \<^verbatim>\<open>reserveStock\<close> of
  quantity 0 succeeds and inserts the product with stock 0.
\<close>

theorem reserveStock_zero_inserts_unknown_product:
  "mutex this = Free \<Longrightarrow> inventory this productId = None \<Longrightarrow>
   reserveStock productId (0 :: 'n::linordered_idom) this =
     Some (Inr True, this\<lparr>inventory := (inventory this)(productId \<mapsto> 0)\<rparr>) \<and>
   productId \<notin> dom (inventory this) \<and>
   dom (inventory (this\<lparr>inventory := (inventory this)(productId \<mapsto> 0)\<rparr>)) =
     insert productId (dom (inventory this))"
  by (auto simp add: reserveStock_def guarded_Free currentStock_def Let_def relock)

theorem reserveStock_zero_inserts_unknown_product_witness:
  "mutex (new_ThreadSafeInventory :: (string, int) ThreadSafeInventory) = Free \<and>
   inventory (new_ThreadSafeInventory :: (string, int) ThreadSafeInventory) ''PROD-9'' = None \<and>
   reserveStock ''PROD-9'' 0 (new_ThreadSafeInventory :: (string, int) ThreadSafeInventory) =
     Some (Inr True, new_ThreadSafeInventory\<lparr>inventory := [''PROD-9'' \<mapsto> 0]\<rparr>)"
  using reserveStock_zero_inserts_unknown_product
          [of "new_ThreadSafeInventory :: (string, int) ThreadSafeInventory" "''PROD-9''"]
  by (simp add: new_ThreadSafeInventory_def)

text \<open>
  Claim C8. An inventory initialized with stock 3 for \<^verbatim>\<open>PROD-1\<close> and two
  reservations of 2 units each: the one that runs first succeeds, the other fails
  with \<^verbatim>\<open>Insufficient stock\<close>, and the final stock is 1. The two calls are equal,
  so the sequence below is the run in either order.
\<close>

theorem two_reservations_of_two_from_three:
  "initializeProduct ''PROD-1'' (3::int) new_ThreadSafeInventory =
     Some ((), new_ThreadSafeInventory\<lparr>inventory := [''PROD-1'' \<mapsto> 3]\<rparr>) \<and>
   run [ReserveStock ''PROD-1'' 2, ReserveStock ''PROD-1'' 2]
       (new_ThreadSafeInventory\<lparr>inventory := [''PROD-1'' \<mapsto> (3::int)]\<rparr>) =
     Some ([Reserved True, Rejected (Error ''Insufficient stock'')],
           new_ThreadSafeInventory\<lparr>inventory := [''PROD-1'' \<mapsto> 1]\<rparr>) \<and>
   getStock ''PROD-1'' (new_ThreadSafeInventory\<lparr>inventory := [''PROD-1'' \<mapsto> (1::int)]\<rparr>) =
     Some (1, new_ThreadSafeInventory\<lparr>inventory := [''PROD-1'' \<mapsto> 1]\<rparr>)"
  by (simp add: new_ThreadSafeInventory_def initializeProduct_def reserveStock_def getStock_def
        guarded_Free currentStock_def Let_def)

subsection \<open>Sequences of inventory calls\<close>

lemma zero_le_zero_double: "(0 :: double) \<le> 0"
  by (simp add: less_eq_double_def lessEqDouble_def zero_double_def)

lemma wholeStock_zero: "wholeStock 0"
  by (simp add: zero_double_def)

lemma currentStock_nonneg: "nonnegative this \<Longrightarrow> 0 \<le> currentStock (inventory this) k"
  by (auto simp: nonnegative_def currentStock_def zero_le_zero_double split: option.splits)

lemma currentStock_whole: "whole this \<Longrightarrow> wholeStock (currentStock (inventory this) k)"
  by (auto simp: whole_def currentStock_def wholeStock_zero split: option.splits)

lemma perform_step:
  assumes "mutex this = Free"
  shows "\<exists>out this'. perform c this = Some (out, this') \<and> mutex this' = Free \<and>
           (nonnegative this \<and> admissible c \<longrightarrow> nonnegative this') \<and>
           (whole this \<and> wholeCall c \<longrightarrow>
              whole this' \<and>
              (\<not> initializes p c \<longrightarrow>
                 amount (currentStock (inventory this') p) =
                 amount (currentStock (inventory this) p) - reserved p c out))"
proof (cases c)
  case (InitializeProduct k n)
  with assms show ?thesis
    by (auto simp: initializeProduct_Free nonnegative_def whole_def currentStock_def)
next
  case (ReserveStock k q)
  let ?s = "currentStock (inventory this) k"
  show ?thesis
  proof (cases "?s < q")
    case True
    with assms ReserveStock show ?thesis by (simp add: reserveStock_Free)
  next
    case False
    let ?t = "this\<lparr>inventory := (inventory this)(k \<mapsto> ?s - q)\<rparr>"
    have r: "perform c this = Some (Reserved True, ?t)"
      using assms ReserveStock False by (simp add: reserveStock_Free)
    have n: "nonnegative ?t" if "nonnegative this" "admissible c"
    proof -
      from that ReserveStock have "0 \<le> ?s - q"
        using False currentStock_nonneg [of this k] by (intro sub_nonneg) simp_all
      with that(1) show ?thesis by (auto simp: nonnegative_def)
    qed
    have w: "whole ?t \<and>
        (\<not> initializes p c \<longrightarrow>
           amount (currentStock (inventory ?t) p) =
           amount (currentStock (inventory this) p) - reserved p c (Reserved True))"
      if "whole this" "wholeCall c"
    proof -
      from that ReserveStock have "wholeStock (?s - q) \<and> amount (?s - q) = amount ?s - amount q"
        using False currentStock_whole [of this k] by (intro sub_whole) simp_all
      with that(1) ReserveStock show ?thesis
        by (auto simp: whole_def currentStock_def)
    qed
    from r n w assms show ?thesis by auto
  qed
next
  case (GetStock k)
  with assms show ?thesis by (simp add: getStock_Free)
qed

lemma reservedTotal_Cons:
  "reservedTotal p (c # cs) (out # outs) = reserved p c out + reservedTotal p cs outs"
  by (simp add: reservedTotal_def)

lemma reservedTotal_Nil: "reservedTotal p [] outs = 0"
  by (simp add: reservedTotal_def)

lemma run_steps:
  assumes "mutex this = Free"
  shows "\<exists>outs this'. run cs this = Some (outs, this') \<and> mutex this' = Free \<and>
           length outs = length cs \<and>
           (nonnegative this \<and> list_all admissible cs \<longrightarrow> nonnegative this') \<and>
           (whole this \<and> list_all wholeCall cs \<longrightarrow>
              whole this' \<and>
              (\<not> list_ex (initializes p) cs \<longrightarrow>
                 amount (currentStock (inventory this') p) =
                 amount (currentStock (inventory this) p) - reservedTotal p cs outs))"
  using assms
proof (induction cs arbitrary: this)
  case Nil
  then show ?case by (simp add: reservedTotal_Nil)
next
  case (Cons c cs)
  from perform_step [OF Cons.prems, of c p] obtain out this1 where
    1: "perform c this = Some (out, this1)" "mutex this1 = Free"
       "nonnegative this \<and> admissible c \<longrightarrow> nonnegative this1"
       "whole this \<and> wholeCall c \<longrightarrow>
          whole this1 \<and>
          (\<not> initializes p c \<longrightarrow>
             amount (currentStock (inventory this1) p) =
             amount (currentStock (inventory this) p) - reserved p c out)"
    by blast
  from Cons.IH [OF 1(2)] obtain outs this2 where
    2: "run cs this1 = Some (outs, this2)" "mutex this2 = Free" "length outs = length cs"
       "nonnegative this1 \<and> list_all admissible cs \<longrightarrow> nonnegative this2"
       "whole this1 \<and> list_all wholeCall cs \<longrightarrow>
          whole this2 \<and>
          (\<not> list_ex (initializes p) cs \<longrightarrow>
             amount (currentStock (inventory this2) p) =
             amount (currentStock (inventory this1) p) - reservedTotal p cs outs)"
    by blast
  have "run (c # cs) this = Some (out # outs, this2)" using 1(1) 2(1) by simp
  moreover have "nonnegative this \<and> list_all admissible (c # cs) \<longrightarrow> nonnegative this2"
    using 1(3) 2(4) by simp
  moreover have "whole this \<and> list_all wholeCall (c # cs) \<longrightarrow>
      whole this2 \<and>
      (\<not> list_ex (initializes p) (c # cs) \<longrightarrow>
         amount (currentStock (inventory this2) p) =
         amount (currentStock (inventory this) p) - reservedTotal p (c # cs) (out # outs))"
    using 1(4) 2(5) by (simp add: reservedTotal_Cons)
  ultimately show ?case using 2(2,3) by simp
qed

lemma run_append:
  "run (xs @ ys) this =
     (case run xs this of
        None \<Rightarrow> None
      | Some (o1, t1) \<Rightarrow>
          (case run ys t1 of None \<Rightarrow> None | Some (o2, t2) \<Rightarrow> Some (o1 @ o2, t2)))"
  by (induction xs arbitrary: this) (auto split: option.splits)

lemma run_after_initialization:
  assumes free: "mutex this = Free"
    and whole: "whole this" "list_all wholeCall (pre @ InitializeProduct p S # post)"
    and run: "run (pre @ InitializeProduct p S # post) this = Some (outs, this')"
    and post: "\<not> list_ex (initializes p) post"
  shows "amount (currentStock (inventory this') p) =
         amount S - reservedTotal p post (drop (Suc (length pre)) outs)"
proof -
  from whole(2) have wc: "list_all wholeCall pre" "wholeStock S" "list_all wholeCall post"
    by simp_all
  from run_steps [OF free, of pre p] whole(1) wc(1) obtain o1 t1 where
    1: "run pre this = Some (o1, t1)" "mutex t1 = Free" "length o1 = length pre" "whole t1"
    by blast
  let ?t2 = "t1\<lparr>inventory := (inventory t1)(p \<mapsto> S)\<rparr>"
  have 2: "perform (InitializeProduct p S) t1 = Some (Initialized, ?t2)"
    using 1(2) by (simp add: initializeProduct_Free)
  have free2: "mutex ?t2 = Free" using 1(2) by simp
  have whole2: "whole ?t2" using 1(4) wc(2) by (simp add: whole_def)
  from run_steps [OF free2, of post p] post whole2 wc(3) obtain o3 t3 where
    3: "run post ?t2 = Some (o3, t3)"
       "amount (currentStock (inventory t3) p) =
        amount (currentStock (inventory ?t2) p) - reservedTotal p post o3"
    by blast
  have "run (pre @ InitializeProduct p S # post) this = Some (o1 @ Initialized # o3, t3)"
    using 1(1) 2 3(1) by (simp add: run_append)
  with run have "outs = o1 @ Initialized # o3" and "this' = t3" by simp_all
  with 1(3) 3(2) show ?thesis by (simp add: currentStock_def)
qed

text \<open>
  Claim C3, as stated: every sequence of calls keeps every stock nonnegative, and a
  reservation that would make the stock negative fails. It does not hold for a
  quantity \<^verbatim>\<open>NaN\<close> (or one that is left out): the check \<^verbatim>\<open>currentStock < quantity\<close>
  is false for it, \<^verbatim>\<open>NaN\<close> is stored, and on the stock \<^verbatim>\<open>NaN\<close> a reservation of 1000
  succeeds where the stock was 5.
\<close>

theorem stock_invariant_counterexample:
  "nonnegative (new_ThreadSafeInventory\<lparr>inventory := [''PROD-1'' \<mapsto> Fin 5]\<rparr>) \<and>
   run [ReserveStock ''PROD-1'' NaN, ReserveStock ''PROD-1'' (Fin 1000)]
     (new_ThreadSafeInventory\<lparr>inventory := [''PROD-1'' \<mapsto> Fin 5]\<rparr>) =
     Some ([Reserved True, Reserved True],
           new_ThreadSafeInventory\<lparr>inventory := [''PROD-1'' \<mapsto> NaN]\<rparr>) \<and>
   \<not> nonnegative (new_ThreadSafeInventory\<lparr>inventory := [''PROD-1'' \<mapsto> NaN]\<rparr>)"
proof -
  have "nonnegative (new_ThreadSafeInventory\<lparr>inventory := [''PROD-1'' \<mapsto> Fin 5]\<rparr>)"
    by (simp add: nonnegative_def less_eq_double_def lessEqDouble_def zero_double_def)
  moreover have "run [ReserveStock ''PROD-1'' NaN, ReserveStock ''PROD-1'' (Fin 1000)]
     (new_ThreadSafeInventory\<lparr>inventory := [''PROD-1'' \<mapsto> Fin 5]\<rparr>) =
     Some ([Reserved True, Reserved True],
           new_ThreadSafeInventory\<lparr>inventory := [''PROD-1'' \<mapsto> NaN]\<rparr>)"
    by (simp add: new_ThreadSafeInventory_def reserveStock_Free currentStock_def
          less_double_def minus_double_def)
  moreover have "\<not> nonnegative (new_ThreadSafeInventory\<lparr>inventory := [''PROD-1'' \<mapsto> NaN]\<rparr>)"
    by (auto simp: nonnegative_def less_eq_double_def lessEqDouble_def)
  ultimately show ?thesis by blast
qed

text \<open>
  Claim C3, amended. From an inventory whose stocks are all nonnegative, every
  sequence of \<^verbatim>\<open>initializeProduct\<close> (with nonnegative stock), \<^verbatim>\<open>reserveStock\<close> with a
  finite quantity and \<^verbatim>\<open>getStock\<close> calls runs to its end and leaves every stored
  stock nonnegative; a reservation that would make the stock negative fails and
  changes nothing. When moreover the stocks are integers up to \<open>2 ^ 53\<close> and the
  quantities nonnegative integers, the final stock of a product is its initial
  stock minus the sum of the quantities reserved with success: the initial stock
  is the stock at the start for a product that the sequence does not initialize,
  and the value of its last initialization otherwise, with the reservations
  after it.
\<close>

theorem stock_never_negative:
  assumes "mutex this = Free" and "nonnegative this" and "list_all admissible calls"
  shows "(\<exists>outs this'. run calls this = Some (outs, this') \<and> length outs = length calls \<and>
            mutex this' = Free \<and> nonnegative this' \<and>
            (whole this \<and> list_all wholeCall calls \<longrightarrow>
               whole this' \<and>
               (\<not> list_ex (initializes p) calls \<longrightarrow>
                  amount (currentStock (inventory this') p) =
                  amount (currentStock (inventory this) p) - reservedTotal p calls outs) \<and>
               (\<forall>pre S post.
                  calls = pre @ InitializeProduct p S # post \<and>
                  \<not> list_ex (initializes p) post \<longrightarrow>
                  amount (currentStock (inventory this') p) =
                  amount S - reservedTotal p post (drop (Suc (length pre)) outs)))) \<and>
         (\<forall>q. currentStock (inventory this) p - q < 0 \<longrightarrow>
            reserveStock p q this = Some (Inl (Error ''Insufficient stock''), this))"
proof
  from run_steps [OF assms(1), of calls p] assms(2,3) obtain outs this' where
    r: "run calls this = Some (outs, this')" "length outs = length calls" "mutex this' = Free"
       "nonnegative this'"
       "whole this \<and> list_all wholeCall calls \<longrightarrow>
          whole this' \<and>
          (\<not> list_ex (initializes p) calls \<longrightarrow>
             amount (currentStock (inventory this') p) =
             amount (currentStock (inventory this) p) - reservedTotal p calls outs)"
    by blast
  have "\<forall>pre S post.
          calls = pre @ InitializeProduct p S # post \<and> \<not> list_ex (initializes p) post \<longrightarrow>
          amount (currentStock (inventory this') p) =
          amount S - reservedTotal p post (drop (Suc (length pre)) outs)"
    if "whole this" "list_all wholeCall calls"
    using run_after_initialization [OF assms(1) that(1)] that(2) r(1) by blast
  with r show "\<exists>outs this'. run calls this = Some (outs, this') \<and> length outs = length calls \<and>
            mutex this' = Free \<and> nonnegative this' \<and>
            (whole this \<and> list_all wholeCall calls \<longrightarrow>
               whole this' \<and>
               (\<not> list_ex (initializes p) calls \<longrightarrow>
                  amount (currentStock (inventory this') p) =
                  amount (currentStock (inventory this) p) - reservedTotal p calls outs) \<and>
               (\<forall>pre S post.
                  calls = pre @ InitializeProduct p S # post \<and>
                  \<not> list_ex (initializes p) post \<longrightarrow>
                  amount (currentStock (inventory this') p) =
                  amount S - reservedTotal p post (drop (Suc (length pre)) outs)))"
    by blast
  show "\<forall>q. currentStock (inventory this) p - q < 0 \<longrightarrow>
            reserveStock p q this = Some (Inl (Error ''Insufficient stock''), this)"
    using assms(1) by (auto simp: reserveStock_Free dest: sub_negative_less)
qed

theorem stock_never_negative_witness:
  "mutex (new_ThreadSafeInventory\<lparr>inventory := [''PROD-2'' \<mapsto> Fin 7]\<rparr>) = Free \<and>
   nonnegative (new_ThreadSafeInventory\<lparr>inventory := [''PROD-2'' \<mapsto> Fin 7]\<rparr>) \<and>
   whole (new_ThreadSafeInventory\<lparr>inventory := [''PROD-2'' \<mapsto> Fin 7]\<rparr>) \<and>
   list_all admissible
     [InitializeProduct ''PROD-1'' (Fin 3), ReserveStock ''PROD-1'' (Fin 2),
      ReserveStock ''PROD-1'' (Fin 2), GetStock ''PROD-1''] \<and>
   list_all wholeCall
     [InitializeProduct ''PROD-1'' (Fin 3), ReserveStock ''PROD-1'' (Fin 2),
      ReserveStock ''PROD-1'' (Fin 2), GetStock ''PROD-1''] \<and>
   \<not> list_ex (initializes ''PROD-1'')
     [ReserveStock ''PROD-1'' (Fin 2), ReserveStock ''PROD-1'' (Fin 2), GetStock ''PROD-1''] \<and>
   (\<exists>outs this'.
      run [InitializeProduct ''PROD-1'' (Fin 3), ReserveStock ''PROD-1'' (Fin 2),
           ReserveStock ''PROD-1'' (Fin 2), GetStock ''PROD-1'']
        (new_ThreadSafeInventory\<lparr>inventory := [''PROD-2'' \<mapsto> Fin 7]\<rparr>) = Some (outs, this') \<and>
      nonnegative this' \<and> whole this' \<and>
      amount (currentStock (inventory this') ''PROD-1'') =
        3 - reservedTotal ''PROD-1''
              [ReserveStock ''PROD-1'' (Fin 2), ReserveStock ''PROD-1'' (Fin 2),
               GetStock ''PROD-1'']
              (drop 1 outs))"
proof -
  let ?t = "new_ThreadSafeInventory\<lparr>inventory := [''PROD-2'' \<mapsto> Fin 7]\<rparr>"
  let ?post = "[ReserveStock ''PROD-1'' (Fin 2), ReserveStock ''PROD-1'' (Fin 2),
                GetStock ''PROD-1'']"
  let ?cs = "InitializeProduct ''PROD-1'' (Fin 3) # ?post"
  have h1: "mutex ?t = Free" by (simp add: new_ThreadSafeInventory_def)
  have h2: "nonnegative ?t"
    by (simp add: nonnegative_def less_eq_double_def lessEqDouble_def zero_double_def)
  have h3: "list_all admissible ?cs"
    by (simp add: less_eq_double_def lessEqDouble_def zero_double_def)
  have h4: "\<not> list_ex (initializes ''PROD-1'') ?post" by simp
  have h5: "?cs = [] @ InitializeProduct ''PROD-1'' (Fin 3) # ?post" by simp
  have h6: "whole ?t" by (simp add: whole_def)
  have h7: "list_all wholeCall ?cs" by simp
  from stock_never_negative [OF h1 h2 h3, of "''PROD-1''"] h6 h7 obtain outs this' where
    r: "run ?cs ?t = Some (outs, this')" "nonnegative this'" "whole this'"
       "\<forall>pre S post.
          ?cs = pre @ InitializeProduct ''PROD-1'' S # post \<and>
          \<not> list_ex (initializes ''PROD-1'') post \<longrightarrow>
          amount (currentStock (inventory this') ''PROD-1'') =
          amount S - reservedTotal ''PROD-1'' post (drop (Suc (length pre)) outs)"
    by blast
  from r(4) [rule_format, of "[]" "Fin 3" ?post] h4 h5
  have e: "amount (currentStock (inventory this') ''PROD-1'') =
      3 - reservedTotal ''PROD-1'' ?post (drop 1 outs)"
    by simp
  with h1 h2 h3 h4 h6 h7 r(1,2,3) show ?thesis by blast
qed

subsection \<open>Readers\<close>

text \<open>
  Claim C7. The read-only methods \<^verbatim>\<open>ThreadSafeCounter.getValue\<close>,
  \<^verbatim>\<open>ThreadSafeCache.get\<close> and \<^verbatim>\<open>ThreadSafeInventory.getStock\<close> return their result
  and leave the store, lock included, exactly as it was.
\<close>

theorem readers_leave_the_store_unchanged:
  "(mutex c = Free \<longrightarrow> getValue c = Some (counter c, c)) \<and>
   (mutex h = Free \<longrightarrow> cache_get key h = Some (map_get (cache h) key, h)) \<and>
   (mutex i = Free \<longrightarrow> getStock productId i = Some (currentStock (inventory i) productId, i))"
  by (simp add: getValue_def cache_get_def getStock_def guarded_Free relock)

theorem readers_leave_the_store_unchanged_witness:
  "mutex (new_ThreadSafeCounter\<lparr>counter := 7 :: int\<rparr>) = Free \<and>
   getValue (new_ThreadSafeCounter\<lparr>counter := 7 :: int\<rparr>) = Some (7, new_ThreadSafeCounter\<lparr>counter := 7 :: int\<rparr>) \<and>
   mutex (new_ThreadSafeCache\<lparr>cache := [''key1'' \<mapsto> Defined ''value1'']\<rparr>) = Free \<and>
   cache_get ''key1'' (new_ThreadSafeCache\<lparr>cache := [''key1'' \<mapsto> Defined ''value1'']\<rparr>) =
     Some (Defined ''value1'', new_ThreadSafeCache\<lparr>cache := [''key1'' \<mapsto> Defined ''value1'']\<rparr>) \<and>
   mutex (new_ThreadSafeInventory\<lparr>inventory := [''PROD-1'' \<mapsto> (95::int)]\<rparr>) = Free \<and>
   getStock ''PROD-1'' (new_ThreadSafeInventory\<lparr>inventory := [''PROD-1'' \<mapsto> (95::int)]\<rparr>) =
     Some (95, new_ThreadSafeInventory\<lparr>inventory := [''PROD-1'' \<mapsto> 95]\<rparr>)"
  using readers_leave_the_store_unchanged
          [of "new_ThreadSafeCounter\<lparr>counter := 7 :: int\<rparr>"
              "new_ThreadSafeCache\<lparr>cache := [''key1'' \<mapsto> Defined ''value1'']\<rparr>" "''key1''"
              "new_ThreadSafeInventory\<lparr>inventory := [''PROD-1'' \<mapsto> (95::int)]\<rparr>" "''PROD-1''"]
  by (simp add: new_ThreadSafeCounter_def new_ThreadSafeCache_def new_ThreadSafeInventory_def
        map_get_def currentStock_def)

text \<open>
  Claim C5, as stated: \<^verbatim>\<open>get\<close> of an absent key returns a result that no stored
  value can be taken for. It does not hold: \<^verbatim>\<open>get\<close> answers \<^verbatim>\<open>undefined\<close> for an
  absent key, and \<^verbatim>\<open>set(key, undefined)\<close> stores that very value.
\<close>

theorem cache_get_absent_counterexample:
  "cache (new_ThreadSafeCache :: (string, string) ThreadSafeCache) ''k'' = None \<and>
   cache_set ''k'' Undefined (new_ThreadSafeCache :: (string, string) ThreadSafeCache) =
     Some ((), new_ThreadSafeCache\<lparr>cache := [''k'' \<mapsto> Undefined]\<rparr>) \<and>
   cache (new_ThreadSafeCache\<lparr>cache := [''k'' \<mapsto> Undefined :: string jsval]\<rparr>) ''k'' = Some Undefined \<and>
   map_option fst (cache_get ''k'' (new_ThreadSafeCache :: (string, string) ThreadSafeCache)) =
   map_option fst (cache_get ''k'' (new_ThreadSafeCache\<lparr>cache := [''k'' \<mapsto> Undefined :: string jsval]\<rparr>))"
  by (simp add: new_ThreadSafeCache_def cache_set_def cache_get_def guarded_Free map_get_def)

text \<open>
  Claim C5, amended. For every key absent from the cache, \<^verbatim>\<open>get\<close> returns
  \<^verbatim>\<open>undefined\<close> and leaves the cache unchanged; this differs from the result for
  every key that is stored with a value other than \<^verbatim>\<open>undefined\<close>.
\<close>

theorem cache_get_absent_is_undefined:
  "mutex this = Free \<Longrightarrow> cache this key = None \<Longrightarrow>
   cache_get key this = Some (Undefined, this) \<and>
   (\<forall>key' v. cache this key' = Some (Defined v) \<longrightarrow>
      cache_get key' this = Some (Defined v, this) \<and>
      map_option fst (cache_get key' this) \<noteq> map_option fst (cache_get key this))"
  by (simp add: cache_get_def guarded_Free relock map_get_def)

theorem cache_get_absent_is_undefined_witness:
  "mutex (new_ThreadSafeCache\<lparr>cache := [''key1'' \<mapsto> Defined ''value1'']\<rparr>) = Free \<and>
   cache (new_ThreadSafeCache\<lparr>cache := [''key1'' \<mapsto> Defined ''value1'']\<rparr>) ''key2'' = None \<and>
   cache_get ''key2'' (new_ThreadSafeCache\<lparr>cache := [''key1'' \<mapsto> Defined ''value1'']\<rparr>) =
     Some (Undefined, new_ThreadSafeCache\<lparr>cache := [''key1'' \<mapsto> Defined ''value1'']\<rparr>) \<and>
   cache_get ''key1'' (new_ThreadSafeCache\<lparr>cache := [''key1'' \<mapsto> Defined ''value1'']\<rparr>) =
     Some (Defined ''value1'', new_ThreadSafeCache\<lparr>cache := [''key1'' \<mapsto> Defined ''value1'']\<rparr>)"
  using cache_get_absent_is_undefined
          [of "new_ThreadSafeCache\<lparr>cache := [''key1'' \<mapsto> Defined ''value1'']\<rparr>" "''key2''"]
  by (simp add: new_ThreadSafeCache_def)

subsection \<open>Errors and the lock\<close>

text \<open>
  Claim C4. An error raised by the operation that \<^verbatim>\<open>execute\<close> runs is logged and
  rethrown as the same error, the lock is free afterwards, and a subsequent
  operation on the same wrapper runs and returns its value. Likewise a failing
  \<^verbatim>\<open>reserveStock\<close> throws its error, leaves the lock free, and subsequent calls on
  the same inventory succeed.
\<close>

theorem errors_are_rethrown_and_the_lock_released:
  "(mutex this = Free \<and> operation (world ev) = Some (Inl e :: 'e + 'r, w) \<longrightarrow>
      execute operation (this, ev) =
        Some (Inl e, this, ev\<lparr>console := console ev @ [e], world := w\<rparr>) \<and>
      (\<forall>next r w'. next w = Some (Inr r :: 'e + 'r, w') \<longrightarrow>
         execute next (this, ev\<lparr>console := console ev @ [e], world := w\<rparr>) =
           Some (Inr r, this, ev\<lparr>console := console ev @ [e], world := w'\<rparr>))) \<and>
   (mutex store = Free \<and>
    currentStock (inventory store) productId < (quantity :: 'n::linordered_idom) \<longrightarrow>
      reserveStock productId quantity store = Some (Inl (Error ''Insufficient stock''), store) \<and>
      getStock productId store = Some (currentStock (inventory store) productId, store) \<and>
      reserveStock productId (currentStock (inventory store) productId) store =
        Some (Inr True, store\<lparr>inventory := (inventory store)(productId \<mapsto> 0)\<rparr>))"
  by (simp add: execute_def acquire_def release_def relock reserveStock_Free getStock_Free)

theorem errors_are_rethrown_and_the_lock_released_witness:
  "mutex new_ThreadSafeOperation = Free \<and>
   (\<lambda>n::nat. Some (Inl ''boom'' :: string + bool, Suc n)) (world \<lparr>console = [], world = 0::nat\<rparr>)
     = Some (Inl ''boom'', 1) \<and>
   execute (\<lambda>n::nat. Some (Inl ''boom'' :: string + bool, Suc n))
     (new_ThreadSafeOperation, \<lparr>console = [], world = 0\<rparr>) =
     Some (Inl ''boom'', new_ThreadSafeOperation, \<lparr>console = [''boom''], world = 1\<rparr>) \<and>
   execute (\<lambda>n::nat. Some (Inr True :: string + bool, Suc n))
     (new_ThreadSafeOperation, \<lparr>console = [''boom''], world = 1\<rparr>) =
     Some (Inr True, new_ThreadSafeOperation, \<lparr>console = [''boom''], world = 2\<rparr>) \<and>
   mutex (new_ThreadSafeInventory\<lparr>inventory := [''PROD-1'' \<mapsto> (3::int)]\<rparr>) = Free \<and>
   currentStock (inventory (new_ThreadSafeInventory\<lparr>inventory := [''PROD-1'' \<mapsto> (3::int)]\<rparr>)) ''PROD-1'' < 5 \<and>
   reserveStock ''PROD-1'' 5 (new_ThreadSafeInventory\<lparr>inventory := [''PROD-1'' \<mapsto> (3::int)]\<rparr>) =
     Some (Inl (Error ''Insufficient stock''), new_ThreadSafeInventory\<lparr>inventory := [''PROD-1'' \<mapsto> 3]\<rparr>) \<and>
   getStock ''PROD-1'' (new_ThreadSafeInventory\<lparr>inventory := [''PROD-1'' \<mapsto> (3::int)]\<rparr>) =
     Some (3, new_ThreadSafeInventory\<lparr>inventory := [''PROD-1'' \<mapsto> 3]\<rparr>)"
proof -
  let ?op = "\<lambda>n::nat. Some (Inl ''boom'' :: string + bool, Suc n)"
  let ?t = "new_ThreadSafeInventory\<lparr>inventory := [''PROD-1'' \<mapsto> (3::int)]\<rparr>"
  have a: "mutex new_ThreadSafeOperation = Free" by (simp add: new_ThreadSafeOperation_def)
  have b: "mutex ?t = Free" by (simp add: new_ThreadSafeInventory_def)
  have c: "currentStock (inventory ?t) ''PROD-1'' = 3"
    by (simp add: currentStock_def new_ThreadSafeInventory_def)
  have d: "?op (world \<lparr>console = [], world = 0::nat\<rparr>) = Some (Inl ''boom'', 1)" by simp
  from errors_are_rethrown_and_the_lock_released
         [of new_ThreadSafeOperation ?op "\<lparr>console = [], world = 0\<rparr>" "''boom''" 1
             ?t "''PROD-1''" 5] a b c d
  have x: "execute ?op (new_ThreadSafeOperation, \<lparr>console = [], world = 0\<rparr>) =
             Some (Inl ''boom'', new_ThreadSafeOperation, \<lparr>console = [''boom''], world = 1\<rparr>)"
    and y: "\<forall>next r w'. next (1::nat) = Some (Inr r :: string + bool, w') \<longrightarrow>
             execute next (new_ThreadSafeOperation, \<lparr>console = [''boom''], world = 1\<rparr>) =
               Some (Inr r, new_ThreadSafeOperation, \<lparr>console = [''boom''], world = w'\<rparr>)"
    and z: "reserveStock ''PROD-1'' 5 ?t = Some (Inl (Error ''Insufficient stock''), ?t)"
           "getStock ''PROD-1'' ?t = Some (3, ?t)"
    by simp_all
  from y [rule_format, of "\<lambda>n::nat. Some (Inr True :: string + bool, Suc n)" True 2]
  have "execute (\<lambda>n::nat. Some (Inr True :: string + bool, Suc n))
       (new_ThreadSafeOperation, \<lparr>console = [''boom''], world = 1\<rparr>) =
     Some (Inr True, new_ThreadSafeOperation, \<lparr>console = [''boom''], world = 2\<rparr>)"
    by simp
  with a b c d x z show ?thesis by simp
qed

subsection \<open>Concurrently issued increments\<close>

lemma length_filter_update:
  "i < length xs \<Longrightarrow>
   int (length (filter P (xs[i := y]))) =
     int (length (filter P xs)) - (if P (xs ! i) then 1 else 0) + (if P y then 1 else 0)"
proof (induction xs arbitrary: i)
  case Nil
  then show ?case by simp
next
  case (Cons x xs)
  show ?case
  proof (cases i)
    case 0
    then show ?thesis by simp
  next
    case (Suc k)
    with Cons.prems have "k < length xs" by simp
    from Cons.IH [OF this] Suc show ?thesis by (auto split: if_splits)
  qed
qed

lemma sum_list_rank_update:
  "i < length xs \<Longrightarrow>
   sum_list (map rank (xs[i := y])) + rank (xs ! i) = sum_list (map rank xs) + rank y"
proof (induction xs arbitrary: i)
  case Nil
  then show ?case by simp
next
  case (Cons x xs)
  show ?case
  proof (cases i)
    case 0
    then show ?thesis by simp
  next
    case (Suc k)
    with Cons.prems have "k < length xs" by simp
    from Cons.IH [OF this] Suc show ?thesis by simp
  qed
qed

lemma sum_list_rank_step:
  assumes "i < length xs" and "rank (xs ! i) = Suc (rank y)"
  shows "Suc (sum_list (map rank (xs[i := y]))) = sum_list (map rank xs)"
  using sum_list_rank_update [OF assms(1), of y] assms(2) by simp

lemma remaining_fire:
  assumes "fire i s = Some s'"
  shows "Suc (remaining s') = remaining s"
proof -
  from assms have i: "i < length (tasks s)"
    by (auto simp: fire_def split: if_splits)
  from assms i show ?thesis
    by (cases "tasks s ! i")
       (auto simp: fire_def remaining_def sum_list_rank_step split: option.splits)
qed

lemma remaining_exec:
  "exec sched s = Some s' \<Longrightarrow> length sched + remaining s' = remaining s"
proof (induction sched arbitrary: s)
  case Nil
  then show ?case by simp
next
  case (Cons i sched)
  then obtain s1 where 1: "fire i s = Some s1" "exec sched s1 = Some s'"
    by (auto split: option.splits)
  from Cons.IH [OF 1(2)] remaining_fire [OF 1(1)] show ?case by simp
qed

lemma remaining_issue: "remaining (issue N) = 5 * N"
  by (simp add: remaining_def issue_def sum_list_replicate)

lemma rank_finished: "rank p = 0 \<longleftrightarrow> finished p"
  by (cases p) simp_all

lemma remaining_completed: "remaining s = 0 \<longleftrightarrow> completed s"
  by (auto simp: remaining_def completed_def list_all_iff rank_finished)

lemma consistent_issue: "consistent (issue N)"
  by (simp add: consistent_def issue_def new_ThreadSafeCounter_def)

lemma consistent_fire:
  assumes "consistent s" and "fire i s = Some s'"
  shows "consistent s'"
proof -
  from assms(2) have i: "i < length (tasks s)"
    by (auto simp: fire_def split: if_splits)
  show ?thesis
  proof (cases "tasks s ! i")
    case Acquiring
    with assms i show ?thesis
      by (auto simp: fire_def consistent_def acquire_def length_filter_update
            nth_list_update split: mutex.splits if_splits)
  next
    case Entered
    with assms i show ?thesis
      by (auto simp: fire_def consistent_def acquire_def length_filter_update
            nth_list_update split: mutex.splits if_splits)
  next
    case (Loaded c)
    with assms i show ?thesis
      by (auto simp: fire_def consistent_def acquire_def length_filter_update
            nth_list_update split: mutex.splits if_splits)
  next
    case Stored
    with assms i show ?thesis
      by (auto simp: fire_def consistent_def acquire_def length_filter_update
            nth_list_update split: mutex.splits if_splits)
  next
    case (Returning v)
    with assms i show ?thesis
      by (auto simp: fire_def consistent_def acquire_def release_def length_filter_update
            nth_list_update split: mutex.splits if_splits)
  next
    case (Finished v)
    with assms i show ?thesis by (simp add: fire_def)
  qed
qed

lemma consistent_exec:
  "consistent s \<Longrightarrow> exec sched s = Some s' \<Longrightarrow> consistent s'"
proof (induction sched arbitrary: s)
  case Nil
  then show ?case by simp
next
  case (Cons i sched)
  then show ?case
    by (auto split: option.splits dest: consistent_fire)
qed

lemma length_fire: "fire i s = Some s' \<Longrightarrow> length (tasks s') = length (tasks s)"
  by (auto simp: fire_def split: if_splits pc.splits option.splits)

lemma length_exec: "exec sched s = Some s' \<Longrightarrow> length (tasks s') = length (tasks s)"
  by (induction sched arbitrary: s) (auto split: option.splits dest: length_fire)

lemma finished_wrote: "finished p \<Longrightarrow> wrote p"
  by (cases p) simp_all

lemma completed_counter:
  assumes "consistent s" and "completed s"
  shows "counter (shared s) = int (length (tasks s))"
proof -
  from assms(2) have "filter wrote (tasks s) = tasks s"
    by (auto simp: completed_def list_all_iff finished_wrote)
  with assms(1) show ?thesis by (simp add: consistent_def)
qed

lemma progress:
  assumes "consistent s" and "\<not> completed s"
  shows "\<exists>i s'. fire i s = Some s'"
proof (cases "mutex (shared s)")
  case Free
  from assms(2) obtain i where i: "i < length (tasks s)" "\<not> finished (tasks s ! i)"
    by (auto simp: completed_def list_all_length)
  from assms(1) Free i have "\<not> inside (tasks s ! i)"
    by (auto simp: consistent_def)
  with i have "tasks s ! i = Acquiring" by (cases "tasks s ! i") simp_all
  with i Free have "fire i s = Some (s\<lparr>shared := (shared s)\<lparr>mutex := Held\<rparr>,
                                     tasks := (tasks s)[i := Entered]\<rparr>)"
    by (simp add: fire_def acquire_def)
  then show ?thesis by blast
next
  case Held
  with assms(1) obtain i where i: "i < length (tasks s)" "inside (tasks s ! i)"
    by (auto simp: consistent_def)
  then have "fire i s \<noteq> None" by (cases "tasks s ! i") (simp_all add: fire_def)
  then show ?thesis by blast
qed

text \<open>
  Claim C1. \<open>N\<close> calls of \<^verbatim>\<open>increment\<close> issued concurrently on a counter that starts
  at 0: under every schedule, once all calls have completed the counter is exactly
  \<open>N\<close>. Moreover no schedule gets stuck before all calls have completed, and every
  schedule completes all calls after exactly \<open>5 * N\<close> steps.
\<close>

theorem concurrent_increments_count_every_call:
  assumes "exec sched (issue N) = Some s"
  shows "(completed s \<longrightarrow> counter (shared s) = int N) \<and>
         (\<not> completed s \<longrightarrow> (\<exists>i s'. fire i s = Some s')) \<and>
         (completed s \<longleftrightarrow> length sched = 5 * N)"
proof -
  have c: "consistent s" using consistent_issue assms by (rule consistent_exec)
  have l: "length (tasks s) = N" using length_exec [OF assms] by (simp add: issue_def)
  have "length sched + remaining s = 5 * N"
    using remaining_exec [OF assms] by (simp add: remaining_issue)
  then have "completed s \<longleftrightarrow> length sched = 5 * N"
    using remaining_completed [of s] by auto
  with c l show ?thesis by (auto dest: completed_counter progress)
qed

theorem concurrent_increments_count_every_call_witness:
  "exec [1, 1, 1, 1, 1, 2, 2, 2, 2, 2, 0, 0, 0, 0, 0] (issue 3) =
     Some \<lparr>shared = \<lparr>mutex = Free, counter = 3\<rparr>,
           tasks = [Finished 3, Finished 1, Finished 2]\<rparr> \<and>
   completed \<lparr>shared = \<lparr>mutex = Free, counter = 3\<rparr>,
              tasks = [Finished 3, Finished 1, Finished 2]\<rparr> \<and>
   counter (shared \<lparr>shared = \<lparr>mutex = Free, counter = 3\<rparr>,
                    tasks = [Finished 3, Finished 1, Finished 2]\<rparr>) = int 3"
proof -
  have h: "exec [1, 1, 1, 1, 1, 2, 2, 2, 2, 2, 0, 0, 0, 0, 0] (issue 3) =
     Some \<lparr>shared = \<lparr>mutex = Free, counter = 3\<rparr>,
           tasks = [Finished 3, Finished 1, Finished 2]\<rparr>"
    by code_simp
  have d: "completed \<lparr>shared = \<lparr>mutex = Free, counter = 3\<rparr>,
              tasks = [Finished 3, Finished 1, Finished 2]\<rparr>"
    by (simp add: completed_def)
  from concurrent_increments_count_every_call [OF h] d h show ?thesis by blast
qed

end
